theory Spec2Isabelle
  imports Complex_Main "HOL-Library.Word" "HOL-Library.List_Lexorder"
begin

section \<open>JavaScript values\<close>

text \<open>
  A JavaScript string is a sequence of UTF-16 code units. Comparison with \<open><\<close> and
  \<open>>\<close> is lexicographic on the code units, a proper prefix being smaller, which is the
  order that \<open>List_Lexorder\<close> puts on lists.
\<close>

type_synonym code_unit = "16 word"
type_synonym jsstring = "code_unit list"

definition js :: "string \<Rightarrow> jsstring" where
  "js s = map of_char s"

text \<open>
  A \<open>number\<close> is a double. No arithmetic is done on numbers here; only their
  truthiness matters (\<open>0\<close>, \<open>-0\<close> and \<open>NaN\<close> are falsy), so a finite double is
  represented by the real it denotes.
\<close>

datatype jsnum = NaN | Infinity bool | Finite real

datatype jsval =
    JUndefined
  | JNull
  | JBool bool
  | JNum jsnum
  | JStr jsstring
  | JArr "jsval list"
  | JObj "(jsstring \<times> jsval) list"

fun truthy :: "jsval \<Rightarrow> bool" where
  "truthy JUndefined = False"
| "truthy JNull = False"
| "truthy (JBool b) = b"
| "truthy (JNum n) = (n \<noteq> NaN \<and> n \<noteq> Finite 0)"
| "truthy (JStr s) = (s \<noteq> [])"
| "truthy (JArr xs) = True"
| "truthy (JObj kvs) = True"

text \<open>\<open>a || b\<close>\<close>

definition or_else :: "jsval \<Rightarrow> jsval \<Rightarrow> jsval" where
  "or_else a b = (if truthy a then a else b)"

datatype js_error =
    Error jsstring
  | ErrorWithResponse jsstring jsval
  | SyntaxError
  | TypeError

text \<open>
  Property access \<open>v.name\<close>: a \<open>TypeError\<close> on \<open>undefined\<close> and \<open>null\<close>, the own
  property on an object, \<open>undefined\<close> where there is none. The property names read in
  this program (\<open>detail\<close>, \<open>message\<close>, \<open>requirements\<close>, \<open>pushed_count\<close>,
  \<open>improved_description\<close>) are not properties of the prototypes of primitives or arrays.
\<close>

fun get_prop :: "jsval \<Rightarrow> jsstring \<Rightarrow> js_error + jsval" where
  "get_prop JUndefined name = Inl TypeError"
| "get_prop JNull name = Inl TypeError"
| "get_prop (JObj kvs) name = (case map_of kvs name of None \<Rightarrow> Inr JUndefined | Some v \<Rightarrow> Inr v)"
| "get_prop v name = Inr JUndefined"

section \<open>Data model\<close>

record UploadedFile =
  file_id :: jsstring
  filename :: jsstring
  created_at :: jsstring

record Requirement =
  requirement_id :: jsstring
  req_title_id :: jsstring
  title :: jsstring
  description :: jsstring
  file_id :: jsstring

record TestCase =
  tc_id :: jsstring
  tc_title :: jsstring
  tc_description :: jsstring
  expected_result :: jsstring
  input_data :: jsstring
  compliance_tags :: jsstring
  risk :: jsstring
  created_at :: jsstring

record GroupedRequirement =
  requirement_id :: jsstring
  req_title_id :: jsstring
  req_title :: jsstring
  requirement_description :: jsstring
  test_cases :: "TestCase list"

section \<open>Display ordering of the grouped test cases\<close>

text \<open>
  \<open>Array.prototype.sort(comparefn)\<close> is stable. With a comparator that is a consistent
  total preorder the result is determined: the stable sorted permutation. It is modelled
  by insertion from the right, an element going in front of the first one that
  \<open>comparefn\<close> does not put before it.
\<close>

type_synonym 'a comparefn = "'a \<Rightarrow> 'a \<Rightarrow> int"

fun sort_insert :: "'a comparefn \<Rightarrow> 'a \<Rightarrow> 'a list \<Rightarrow> 'a list" where
  "sort_insert cmp x [] = [x]"
| "sort_insert cmp x (y # ys) =
     (if cmp x y \<le> 0 then x # y # ys else y # sort_insert cmp x ys)"

definition array_sort :: "'a comparefn \<Rightarrow> 'a list \<Rightarrow> 'a list" where
  "array_sort cmp xs = foldr (sort_insert cmp) xs []"

definition compare_req :: "GroupedRequirement comparefn" where
  "compare_req a b =
     (if GroupedRequirement.req_title_id a < GroupedRequirement.req_title_id b then - 1
      else if GroupedRequirement.req_title_id a > GroupedRequirement.req_title_id b then 1
      else 0)"

definition compare_tc :: "TestCase comparefn" where
  "compare_tc a b =
     (if tc_id a < tc_id b then - 1
      else if tc_id a > tc_id b then 1
      else 0)"

definition sortedTestCases :: "GroupedRequirement list \<Rightarrow> GroupedRequirement list" where
  "sortedTestCases groupedTestCases =
     map (\<lambda>req. req\<lparr>test_cases := array_sort compare_tc (test_cases req)\<rparr>)
       (array_sort compare_req groupedTestCases)"

section \<open>Reports screen: the compliance-tag filter\<close>

text \<open>
  The elements of \<open>metrics.test_cases\<close> are typed \<open>any\<close>; the record has the fields
  the reports screen reads. Here \<open>compliance_tags\<close> is an array of tags.
\<close>

record ReportTestCase =
  tc_id :: jsstring
  tc_title :: jsstring
  risk :: jsstring
  compliance_tags :: "jsstring list"
  req_title :: jsstring
  tc_description :: jsstring
  expected_result :: jsstring
  input_data :: jsstring
  created_at :: jsstring

record ComplianceMetrics =
  file_id :: jsstring
  total_test_cases :: jsnum
  compliance_tags :: "jsstring list"
  compliance_counts :: "(jsstring \<times> jsnum) list"
  risk_counts :: "(jsstring \<times> jsnum) list"
  test_cases :: "ReportTestCase list"
  last_updated :: "jsstring option"

text \<open>\<open>xs.includes(x)\<close> and \<open>xs.some(p)\<close>\<close>

definition array_includes :: "'a list \<Rightarrow> 'a \<Rightarrow> bool" where
  "array_includes xs x = (x \<in> set xs)"

definition array_some :: "'a list \<Rightarrow> ('a \<Rightarrow> bool) \<Rightarrow> bool" where
  "array_some xs p = list_ex p xs"

text \<open>
  \<open>metrics?.test_cases?.filter(...) || []\<close>: the empty list when there are no metrics.
\<close>

definition filteredTestCases ::
  "ComplianceMetrics option \<Rightarrow> jsstring list \<Rightarrow> ReportTestCase list" where
  "filteredTestCases metrics complianceFilter =
     (case metrics of
        None \<Rightarrow> []
      | Some m \<Rightarrow>
          filter (\<lambda>tc.
              if length complianceFilter = 0 then True
              else array_some (ReportTestCase.compliance_tags tc) (\<lambda>tag. array_includes complianceFilter tag))
            (ComplianceMetrics.test_cases m))"

section \<open>The API client\<close>


text \<open>\<open>xs.join(sep)\<close> on an array of strings\<close>

fun join :: "jsstring \<Rightarrow> jsstring list \<Rightarrow> jsstring" where
  "join sep [] = []"
| "join sep [x] = x"
| "join sep (x # y # ys) = x @ sep @ join sep (y # ys)"




text \<open>
  The response of a \<open>fetch\<close>. \<open>json\<close> is the outcome of \<open>response.json()\<close>: \<open>None\<close>
  when the body is not valid JSON and the promise rejects with a \<open>SyntaxError\<close>.
\<close>

record response =
  status :: nat
  statusText :: jsstring
  json :: "jsval option"

definition ok :: "response \<Rightarrow> bool" where
  "ok r = (200 \<le> status r \<and> status r \<le> 299)"

definition response_json :: "response \<Rightarrow> js_error + jsval" where
  "response_json r = (case json r of None \<Rightarrow> Inl SyntaxError | Some v \<Rightarrow> Inr v)"







definition generateTestCasesForRequirement :: "response \<Rightarrow> js_error + jsval" where
  "generateTestCasesForRequirement r =
     (if \<not> ok r then Inl (Error (js ''Failed to generate test cases: '' @ statusText r))
      else response_json r)"


definition getTestCasesByFile :: "response \<Rightarrow> js_error + jsval" where
  "getTestCasesByFile r =
     (if \<not> ok r then Inl (Error (js ''Failed to fetch test cases for file: '' @ statusText r))
      else response_json r)"


definition improveTestCase :: "response \<Rightarrow> js_error + jsval" where
  "improveTestCase r =
     (if \<not> ok r then Inl (Error (js ''Failed to improve test case''))
      else response_json r)"


text \<open>The requests, with their arguments, and \<open>apiService.<operation>(<arguments>)\<close>.\<close>

record ImprovePayload =
  file_id :: jsstring
  requirement_id :: jsstring
  tc_id :: jsstring
  original_description :: jsstring
  user_input :: jsstring

datatype api_call =
    PushToJira jsstring
  | UploadDocument "jsstring list" "jsstring list"
  | ExtractFeatures jsstring
  | GetExtractedRequirements jsstring
  | GetUploadedFiles
  | GetRequirements "jsstring option"
  | GenerateTestCasesForRequirement jsstring
  | GetTestCases
  | GetTestCasesByFile jsstring
  | GenerateTestCasesForFile jsstring
  | ImproveTestCase ImprovePayload
  | GetComplianceMetrics jsstring


section \<open>Integration screen\<close>

record FileOption =
  file_id :: jsstring
  filename :: jsstring

datatype JiraStatus = JiraIdle | JiraLoading | JiraSuccess | JiraError

datatype SyncStatus = SyncIdle | Syncing | SyncComplete

text \<open>
  \<open>jiraMessage\<close> and \<open>jiraCount\<close> are declared \<open>string\<close> and \<open>number | null\<close>, and
  receive properties of the parsed body as they are.
\<close>

record IntegrationHub =
  files :: "FileOption list"
  selectedFileId :: jsstring
  jiraStatus :: JiraStatus
  jiraMessage :: jsval
  jiraCount :: jsval
  activeTab :: jsstring
  syncStatus :: SyncStatus










section \<open>Generation workflow\<close>

datatype GenerationOption = OptionFile | OptionRequirements

record ImproveModalData =
  file_id :: jsstring
  requirement_id :: jsstring
  tc_id :: jsstring
  original_description :: jsstring

text \<open>
  The state of the component. \<open>groupedTestCases\<close>, \<open>success\<close> and
  \<open>improvedDescription\<close> receive properties of a parsed body as they are, whatever
  their declared type.
\<close>

record TestGeneration =
  files :: "UploadedFile list"
  selectedFile :: jsstring
  requirements :: "Requirement list"
  selectedRequirements :: "jsstring list"
  groupedTestCases :: jsval
  loadingFiles :: bool
  loadingTestCases :: bool
  loadingGenerate :: bool
  loadingImprove :: bool
  error :: jsstring
  success :: jsval
  generationOption :: GenerationOption
  showImproveModal :: bool
  improveModalData :: "ImproveModalData option"
  improveInput :: jsstring
  improvedDescription :: jsval

text \<open>
  A run of the component: its state and the requests issued so far, in order. The
  network gives the outcome of the \<open>n\<close>-th \<open>fetch\<close> of the run, \<open>Inl\<close> when it
  rejects. An awaited call logs its request and continues with the outcome.
\<close>

record TestGenerationRun = TestGeneration +
  calls :: "api_call list"

type_synonym network = "nat \<Rightarrow> js_error + response"

definition await ::
  "network \<Rightarrow> api_call \<Rightarrow> (response \<Rightarrow> js_error + jsval) \<Rightarrow> TestGenerationRun \<Rightarrow>
     (js_error + jsval) \<times> TestGenerationRun" where
  "await net c operation s =
     ((case net (length (calls s)) of Inl e \<Rightarrow> Inl e | Inr r \<Rightarrow> operation r),
      s\<lparr>calls := calls s @ [c]\<rparr>)"

subsection \<open>Selecting requirements\<close>

definition handleFileChange :: "jsstring \<Rightarrow> TestGenerationRun \<Rightarrow> TestGenerationRun" where
  "handleFileChange v s =
     s\<lparr>selectedFile := v, groupedTestCases := JArr [], requirements := [],
       selectedRequirements := [], generationOption := OptionFile, error := [],
       success := JStr []\<rparr>"

definition handleSelectAllRequirements :: "TestGenerationRun \<Rightarrow> TestGenerationRun" where
  "handleSelectAllRequirements s =
     (if length (selectedRequirements s) = length (requirements s)
      then s\<lparr>selectedRequirements := []\<rparr>
      else s\<lparr>selectedRequirements := map Requirement.requirement_id (requirements s)\<rparr>)"

definition handleRequirementToggle :: "jsstring \<Rightarrow> TestGenerationRun \<Rightarrow> TestGenerationRun" where
  "handleRequirementToggle i s =
     s\<lparr>selectedRequirements :=
         (let prev = selectedRequirements s
          in if array_includes prev i then filter (\<lambda>rid. rid \<noteq> i) prev else prev @ [i])\<rparr>"

text \<open>
  The events that write \<open>requirements\<close> or \<open>selectedRequirements\<close>: the two handlers,
  a file change, and the arrival of the fetched requirements (\<open>setRequirements(data)\<close>).
\<close>

datatype selection_event =
    Toggle jsstring
  | SelectAll
  | FileChange jsstring
  | RequirementsFetched "Requirement list"

fun selection_step :: "TestGenerationRun \<Rightarrow> selection_event \<Rightarrow> TestGenerationRun" where
  "selection_step s (Toggle i) = handleRequirementToggle i s"
| "selection_step s SelectAll = handleSelectAllRequirements s"
| "selection_step s (FileChange v) = handleFileChange v s"
| "selection_step s (RequirementsFetched data) = s\<lparr>requirements := data\<rparr>"

fun fetched_ids_distinct :: "selection_event \<Rightarrow> bool" where
  "fetched_ids_distinct (RequirementsFetched data) = distinct (map Requirement.requirement_id data)"
| "fetched_ids_distinct ev = True"

text \<open>The state at mount, before any request.\<close>

definition initial :: TestGenerationRun where
  "initial =
     \<lparr>files = [], selectedFile = [], requirements = [], selectedRequirements = [],
      groupedTestCases = JArr [], loadingFiles = False, loadingTestCases = False,
      loadingGenerate = False, loadingImprove = False, error = [], success = JStr [],
      generationOption = OptionFile, showImproveModal = False, improveModalData = None,
      improveInput = [], improvedDescription = JStr [], calls = []\<rparr>"

subsection \<open>Generating for the selected requirements\<close>

text \<open>
  The \<open>for\<close> loop: each call is awaited before the next one is issued, and a call that
  throws leaves the loop.
\<close>

fun generate_each ::
  "network \<Rightarrow> jsstring list \<Rightarrow> TestGenerationRun \<Rightarrow> (js_error + unit) \<times> TestGenerationRun" where
  "generate_each net [] s = (Inr (), s)"
| "generate_each net (reqId # rest) s =
     (case await net (GenerateTestCasesForRequirement reqId) generateTestCasesForRequirement s of
        (Inl e, s') \<Rightarrow> (Inl e, s')
      | (Inr result, s') \<Rightarrow> generate_each net rest s')"

text \<open>
  \<open>const data = await apiService.getTestCasesByFile(selectedFile);
  setGroupedTestCases(data.requirements || [])\<close>, which three handlers share.
\<close>

definition refresh ::
  "network \<Rightarrow> jsstring \<Rightarrow> TestGenerationRun \<Rightarrow> (js_error + unit) \<times> TestGenerationRun" where
  "refresh net fileId s =
     (case await net (GetTestCasesByFile fileId) getTestCasesByFile s of
        (Inl e, s') \<Rightarrow> (Inl e, s')
      | (Inr data, s') \<Rightarrow>
          (case get_prop data (js ''requirements'') of
             Inl e \<Rightarrow> (Inl e, s')
           | Inr reqs \<Rightarrow> (Inr (), s'\<lparr>groupedTestCases := or_else reqs (JArr [])\<rparr>)))"

definition handleGenerateForRequirements :: "network \<Rightarrow> TestGenerationRun \<Rightarrow> TestGenerationRun" where
  "handleGenerateForRequirements net s =
     (if length (selectedRequirements s) = 0
      then s\<lparr>error := js ''Please select at least one requirement.''\<rparr>
      else
        (let s1 = s\<lparr>loadingGenerate := True, error := [], success := JStr []\<rparr> in
         case generate_each net (selectedRequirements s) s1 of
           (Inl e, s2) \<Rightarrow>
             s2\<lparr>error := js ''Failed to generate test cases for selected requirements.'',
                loadingGenerate := False\<rparr>
         | (Inr u, s2) \<Rightarrow>
             (let s3 = s2\<lparr>success := JStr (js ''Test cases generated for selected requirements.'')\<rparr>
              in case refresh net (selectedFile s) s3 of
                   (Inl e, s4) \<Rightarrow>
                     s4\<lparr>error := js ''Failed to generate test cases for selected requirements.'',
                        loadingGenerate := False\<rparr>
                 | (Inr u', s4) \<Rightarrow> s4\<lparr>loadingGenerate := False\<rparr>)))"

subsection \<open>The improve modal\<close>

definition handleOpenImproveModal ::
  "jsstring \<Rightarrow> jsstring \<Rightarrow> jsstring \<Rightarrow> jsstring \<Rightarrow> TestGenerationRun \<Rightarrow> TestGenerationRun" where
  "handleOpenImproveModal fid rid tid descr s =
     s\<lparr>improveModalData :=
         Some \<lparr>file_id = fid, requirement_id = rid, tc_id = tid, original_description = descr\<rparr>,
       improveInput := [], improvedDescription := JStr [], showImproveModal := True\<rparr>"

definition improve_catch :: "TestGenerationRun \<Rightarrow> TestGenerationRun" where
  "improve_catch s = s\<lparr>error := js ''Failed to improve test case.'', loadingImprove := False\<rparr>"

definition handleImproveSubmit :: "network \<Rightarrow> TestGenerationRun \<Rightarrow> TestGenerationRun" where
  "handleImproveSubmit net s =
     (case improveModalData s of
        None \<Rightarrow> s
      | Some d \<Rightarrow>
          (let s1 = s\<lparr>loadingImprove := True, error := []\<rparr>;
               payload = \<lparr>ImprovePayload.file_id = ImproveModalData.file_id d,
                          ImprovePayload.requirement_id = ImproveModalData.requirement_id d,
                          ImprovePayload.tc_id = ImproveModalData.tc_id d,
                          ImprovePayload.original_description =
                            ImproveModalData.original_description d,
                          ImprovePayload.user_input = improveInput s\<rparr>
           in case await net (ImproveTestCase payload) improveTestCase s1 of
                (Inl e, s2) \<Rightarrow> improve_catch s2
              | (Inr result, s2) \<Rightarrow>
                  (case get_prop result (js ''improved_description'') of
                     Inl e \<Rightarrow> improve_catch s2
                   | Inr improved \<Rightarrow>
                       (let s3 = s2\<lparr>improvedDescription := improved\<rparr> in
                        case get_prop result (js ''message'') of
                          Inl e \<Rightarrow> improve_catch s3
                        | Inr message \<Rightarrow>
                            s3\<lparr>success := or_else message (JStr (js ''Test case improved.'')),
                               loadingImprove := False\<rparr>))))"

definition handleCloseImproveModal :: "network \<Rightarrow> TestGenerationRun \<Rightarrow> TestGenerationRun" where
  "handleCloseImproveModal net s =
     (let s1 = s\<lparr>showImproveModal := False\<rparr> in
      if truthy (improvedDescription s) then
        (let s2 = s1\<lparr>loadingTestCases := True\<rparr> in
         case refresh net (selectedFile s) s2 of
           (Inl e, s3) \<Rightarrow>
             s3\<lparr>error := js ''Failed to refresh test cases after improvement.'',
                loadingTestCases := False\<rparr>
         | (Inr u, s3) \<Rightarrow> s3\<lparr>loadingTestCases := False\<rparr>)
      else s1)"

text \<open>
  What the user can do in the modal, which is on the screen while \<open>showImproveModal\<close>
  is set and there is \<open>improveModalData\<close>: edit the suggestion, press Submit, press
  Cancel. The text area and Cancel are disabled while an improve call is awaited, Submit
  also while the suggestion is empty.
\<close>

datatype modal_event = EditInput jsstring | Submit | Cancel

definition modal_shown :: "TestGenerationRun \<Rightarrow> bool" where
  "modal_shown s = (showImproveModal s \<and> improveModalData s \<noteq> None)"

fun modal_step :: "network \<Rightarrow> TestGenerationRun \<Rightarrow> modal_event \<Rightarrow> TestGenerationRun" where
  "modal_step net s (EditInput v) =
     (if \<not> modal_shown s \<or> loadingImprove s then s else s\<lparr>improveInput := v\<rparr>)"
| "modal_step net s Submit =
     (if \<not> modal_shown s \<or> loadingImprove s \<or> improveInput s = [] then s
      else handleImproveSubmit net s)"
| "modal_step net s Cancel =
     (if \<not> modal_shown s \<or> loadingImprove s then s else handleCloseImproveModal net s)"

section \<open>Formatting utilities\<close>

text \<open>
  \<open>\d\<close> is an ASCII digit. \<open>\s\<close> is white space or a line terminator, the code units
  that \<open>trim\<close> strips as well.
\<close>

definition isDigit :: "code_unit \<Rightarrow> bool" where
  "isDigit c = (48 \<le> c \<and> c \<le> 57)"

definition isSpace :: "code_unit \<Rightarrow> bool" where
  "isSpace c =
     (c \<in> {9, 10, 11, 12, 13, 32, 160, 5760, 8232, 8233, 8239, 8287, 12288, 65279}
      \<or> (8192 \<le> c \<and> c \<le> 8202))"

definition trim :: "jsstring \<Rightarrow> jsstring" where
  "trim s = rev (dropWhile isSpace (rev (dropWhile isSpace s)))"

text \<open>\<open>s.split(sep)\<close> for a separator of one code unit\<close>

fun split :: "code_unit \<Rightarrow> jsstring \<Rightarrow> jsstring list" where
  "split sep [] = [[]]"
| "split sep (c # cs) =
     (if c = sep then [] # split sep cs
      else (case split sep cs of [] \<Rightarrow> [[c]] | line # lines \<Rightarrow> (c # line) # lines))"

text \<open>What is rendered: \<open><ol>\<close> with one \<open><li>\<close> per step, or \<open><p>\<close>.\<close>

datatype node = OrderedList "jsstring list" | Paragraph jsstring

definition formatDescription :: "jsstring \<Rightarrow> node" where
  "formatDescription desc =
     (let steps = filter (\<lambda>line. trim line \<noteq> []) (split 10 desc)
      in if length steps > 1 then OrderedList steps else Paragraph desc)"

text \<open>
  The regular expression \<^verbatim>\<open>/\d+\.\s([^\d]+)(?=(?:\d+\.|$))/g\<close>, matched by
  backtracking. A greedy \<open>p+\<close> tries the lengths of its match from the longest down to
  one; the first length for which the rest of the pattern matches is taken.
\<close>

definition plus_lengths :: "(code_unit \<Rightarrow> bool) \<Rightarrow> jsstring \<Rightarrow> nat list" where
  "plus_lengths p s = rev [1 ..< Suc (length (takeWhile p s))]"

fun first_match :: "('a \<Rightarrow> 'b option) \<Rightarrow> 'a list \<Rightarrow> 'b option" where
  "first_match f [] = None"
| "first_match f (x # xs) = (case f x of Some y \<Rightarrow> Some y | None \<Rightarrow> first_match f xs)"

text \<open>\<^verbatim>\<open>(?=(?:\d+\.|$))\<close> at the input that remains; there is no \<open>m\<close> flag.\<close>

definition lookahead :: "jsstring \<Rightarrow> bool" where
  "lookahead s =
     (first_match
        (\<lambda>n. case drop n s of [] \<Rightarrow> None | c # cs \<Rightarrow> if c = 46 then Some () else None)
        (plus_lengths isDigit s) \<noteq> None
      \<or> s = [])"

text \<open>
  A match that starts at the head of the input: the capture group and the input after
  the match.
\<close>

definition match_here :: "jsstring \<Rightarrow> (jsstring \<times> jsstring) option" where
  "match_here s =
     first_match
       (\<lambda>n. case drop n s of
              dot # sp # r \<Rightarrow>
                if dot = 46 \<and> isSpace sp then
                  first_match
                    (\<lambda>k. if lookahead (drop k r) then Some (take k r, drop k r) else None)
                    (plus_lengths (\<lambda>c. \<not> isDigit c) r)
                else None
            | _ \<Rightarrow> None)
       (plus_lengths isDigit s)"

text \<open>
  \<open>regex.exec\<close> from \<open>lastIndex\<close> on: the leftmost start with a match. The pattern
  does not look behind, so the input from \<open>lastIndex\<close> on decides.
\<close>

fun exec :: "jsstring \<Rightarrow> (jsstring \<times> jsstring) option" where
  "exec [] = match_here []"
| "exec (c # cs) = (case match_here (c # cs) of Some m \<Rightarrow> Some m | None \<Rightarrow> exec cs)"

text \<open>
  The loop \<open>while ((match = regex.exec(desc)) !== null) matches.push(match[1].trim())\<close>.
  A match is not empty, so \<open>lastIndex\<close> advances and the loop ends.
\<close>

lemma first_match_SomeD: "first_match f xs = Some y \<Longrightarrow> \<exists>x \<in> set xs. f x = Some y"
  by (induction xs) (auto split: option.splits)

lemma plus_lengths_pos: "n \<in> set (plus_lengths p s) \<Longrightarrow> 0 < n"
  by (auto simp: plus_lengths_def)

lemma match_here_shorter:
  assumes "match_here s = Some (g, rest)"
  shows "length rest < length s"
proof -
  from assms obtain n where n: "n \<in> set (plus_lengths isDigit s)"
    and f: "(case drop n s of
              dot # sp # r \<Rightarrow>
                if dot = 46 \<and> isSpace sp then
                  first_match
                    (\<lambda>k. if lookahead (drop k r) then Some (take k r, drop k r) else None)
                    (plus_lengths (\<lambda>c. \<not> isDigit c) r)
                else None
            | _ \<Rightarrow> None) = Some (g, rest)"
    unfolding match_here_def by (blast dest: first_match_SomeD)
  from f obtain dot sp r where d: "drop n s = dot # sp # r"
    and g: "first_match (\<lambda>k. if lookahead (drop k r) then Some (take k r, drop k r) else None)
                    (plus_lengths (\<lambda>c. \<not> isDigit c) r) = Some (g, rest)"
    by (auto split: list.splits if_splits)
  from g obtain k where "rest = drop k r"
    by (auto dest!: first_match_SomeD split: if_splits)
  moreover have "length (drop n s) \<le> length s" by simp
  ultimately show ?thesis using d by (metis length_drop diff_le_self le_less_trans length_Cons lessI less_SucI not_less order.trans)
qed

lemma exec_shorter: "exec s = Some (g, rest) \<Longrightarrow> length rest < length s"
proof (induction s)
  case Nil
  then show ?case by (auto dest: match_here_shorter)
next
  case (Cons c cs)
  then show ?case by (auto split: option.splits dest: match_here_shorter)
qed

function matches_from :: "jsstring \<Rightarrow> jsstring list" where
  "matches_from s =
     (case exec s of None \<Rightarrow> [] | Some (g, rest) \<Rightarrow> trim g # matches_from rest)"
  by pat_completeness auto
termination
  by (relation "measure length") (auto dest: exec_shorter)

declare matches_from.simps [simp del]

definition formatDescriptionSmart :: "jsstring \<Rightarrow> node" where
  "formatDescriptionSmart desc =
     (let matches = matches_from desc
      in if length matches > 0 then OrderedList matches else formatDescription desc)"

text \<open>
  \<open>formatInputData\<close>. \<open>JSON.parse\<close> and \<open>JSON.stringify\<close> are the platform's and
  are parameters: \<open>parse\<close> gives the value or the \<open>SyntaxError\<close> it throws, and
  \<open>stringify v n\<close> is \<open>JSON.stringify(v, null, n)\<close>, a string for every value that
  \<open>JSON.parse\<close> returns.
\<close>

definition formatInputData ::
  "(jsstring \<Rightarrow> js_error + jsval) \<Rightarrow> (jsval \<Rightarrow> nat \<Rightarrow> jsstring) \<Rightarrow> jsstring \<Rightarrow> jsstring" where
  "formatInputData parse stringify input =
     (case parse input of
        Inr obj \<Rightarrow> stringify obj 2
      | Inl e \<Rightarrow> input)"

section \<open>Notions used in the statements\<close>

text \<open>The \<open>n\<close>-th request of a run, a generation call, returns.\<close>

definition generation_succeeds :: "network \<Rightarrow> nat \<Rightarrow> bool" where
  "generation_succeeds net n =
     (case net n of
        Inl e \<Rightarrow> False
      | Inr r \<Rightarrow> (case generateTestCasesForRequirement r of Inl e \<Rightarrow> False | Inr v \<Rightarrow> True))"

text \<open>
  The invariant of the selection: no id twice, among the selected ids and among the
  fetched requirements.
\<close>

definition selection_inv :: "TestGenerationRun \<Rightarrow> bool" where
  "selection_inv s \<longleftrightarrow>
     distinct (selectedRequirements s) \<and> distinct (map Requirement.requirement_id (requirements s))"





text \<open>
  A description written as numbered segments: each a number, a period, a space and a
  content. A segment is well formed when its number is a run of digits and its content
  is not empty and has no digit.
\<close>

definition numbered :: "(jsstring \<times> jsstring) list \<Rightarrow> jsstring" where
  "numbered segs = concat (map (\<lambda>(n, c). n @ [46, 32] @ c) segs)"

definition well_segment :: "jsstring \<times> jsstring \<Rightarrow> bool" where
  "well_segment seg \<longleftrightarrow>
     fst seg \<noteq> [] \<and> list_all isDigit (fst seg) \<and>
     snd seg \<noteq> [] \<and> list_all (\<lambda>c. \<not> isDigit c) (snd seg)"

text \<open>Example data.\<close>

definition http_ok :: "jsval \<Rightarrow> response" where
  "http_ok body = \<lparr>status = 200, statusText = js ''OK'', json = Some body\<rparr>"

definition http_failure :: "jsval \<Rightarrow> response" where
  "http_failure body = \<lparr>status = 500, statusText = js ''Internal Server Error'', json = Some body\<rparr>"

definition two_selected :: TestGenerationRun where
  "two_selected = initial\<lparr>selectedFile := js ''F1'', selectedRequirements := [js ''A'', js ''B'']\<rparr>"

definition test_case_of :: "jsstring \<Rightarrow> jsstring \<Rightarrow> TestCase" where
  "test_case_of i t =
     \<lparr>TestCase.tc_id = i, TestCase.tc_title = t, TestCase.tc_description = [], TestCase.expected_result = [],
      TestCase.input_data = [], TestCase.compliance_tags = [], TestCase.risk = [], TestCase.created_at = []\<rparr>"

definition group_of :: "jsstring \<Rightarrow> jsstring \<Rightarrow> TestCase list \<Rightarrow> GroupedRequirement" where
  "group_of i t cs =
     \<lparr>GroupedRequirement.requirement_id = i, GroupedRequirement.req_title_id = t, GroupedRequirement.req_title = [],
      GroupedRequirement.requirement_description = [], GroupedRequirement.test_cases = cs\<rparr>"

definition report_case :: "jsstring \<Rightarrow> jsstring list \<Rightarrow> ReportTestCase" where
  "report_case i tags =
     \<lparr>ReportTestCase.tc_id = i, ReportTestCase.tc_title = [], ReportTestCase.risk = [],
      ReportTestCase.compliance_tags = tags, ReportTestCase.req_title = [],
      ReportTestCase.tc_description = [], ReportTestCase.expected_result = [],
      ReportTestCase.input_data = [], ReportTestCase.created_at = []\<rparr>"

definition metrics_of :: "ReportTestCase list \<Rightarrow> ComplianceMetrics" where
  "metrics_of tcs =
     \<lparr>ComplianceMetrics.file_id = [], ComplianceMetrics.total_test_cases = Finite 0,
      ComplianceMetrics.compliance_tags = [], ComplianceMetrics.compliance_counts = [],
      ComplianceMetrics.risk_counts = [], ComplianceMetrics.test_cases = tcs,
      ComplianceMetrics.last_updated = None\<rparr>"

definition requirement_of :: "jsstring \<Rightarrow> jsstring \<Rightarrow> Requirement" where
  "requirement_of i t =
     \<lparr>Requirement.requirement_id = i, Requirement.req_title_id = [], Requirement.title = t,
      Requirement.description = [], Requirement.file_id = []\<rparr>"

definition file_selected :: TestGenerationRun where
  "file_selected = initial\<lparr>selectedFile := js ''F1''\<rparr>"

definition improved_body :: jsval where
  "improved_body =
     JObj [(js ''improved_description'', JStr (js ''better'')), (js ''message'', JStr (js ''done''))]"

definition empty_body :: jsval where
  "empty_body =
     JObj [(js ''improved_description'', JStr []), (js ''message'', JStr (js ''done''))]"

definition better_then_empty :: network where
  "better_then_empty n = (if n = 0 then Inr (http_ok improved_body) else Inr (http_ok empty_body))"



definition parse_brackets :: "jsstring \<Rightarrow> js_error + jsval" where
  "parse_brackets s = (if s = js ''[]'' then Inr (JArr []) else Inl SyntaxError)"

definition stringify_brackets :: "jsval \<Rightarrow> nat \<Rightarrow> jsstring" where
  "stringify_brackets v n = (if v = JArr [] then js ''[]'' else js ''null'')"

definition opened :: TestGenerationRun where
  "opened = handleOpenImproveModal (js ''F1'') (js ''R1'') (js ''TC-1'') (js ''old'') file_selected"

definition improve_request :: api_call where
  "improve_request =
     ImproveTestCase
       \<lparr>ImprovePayload.file_id = js ''F1'', ImprovePayload.requirement_id = js ''R1'',
        ImprovePayload.tc_id = js ''TC-1'', ImprovePayload.original_description = js ''old'',
        ImprovePayload.user_input = js ''more''\<rparr>"







section \<open>Basic facts\<close>

text \<open>
  An awaited call logs its request and leaves the selected file alone; the refetch logs
  one request. A property of a value that is neither \<open>null\<close> nor \<open>undefined\<close> can
  be read.
\<close>

lemma calls_await [simp]: "calls (snd (await net c operation s)) = calls s @ [c]"
  by (simp add: await_def)

lemma selectedFile_await [simp]: "selectedFile (snd (await net c operation s)) = selectedFile s"
  by (simp add: await_def)

lemma calls_refresh [simp]: "calls (snd (refresh net fileId s)) = calls s @ [GetTestCasesByFile fileId]"
proof -
  obtain out s' where a: "await net (GetTestCasesByFile fileId) getTestCasesByFile s = (out, s')"
    by (cases "await net (GetTestCasesByFile fileId) getTestCasesByFile s")
  then have "calls s' = calls s @ [GetTestCasesByFile fileId]" by (metis calls_await snd_conv)
  then show ?thesis by (simp add: refresh_def a split: sum.splits)
qed

lemma or_else_undefined [simp]: "or_else JUndefined b = b"
  by (simp add: or_else_def)



section \<open>Display ordering: sorted, lexicographic and stable\<close>

text \<open>On a comparator that follows a key, \<open>array_sort\<close> is the stable sort by that key.\<close>

lemma sort_insert_insort_key:
  assumes "\<And>x y. cmp x y \<le> 0 \<longleftrightarrow> key x \<le> key y"
  shows "sort_insert cmp x ys = insort_key key x ys"
  by (induction ys) (simp_all add: assms)

lemma array_sort_sort_key:
  assumes "\<And>x y. cmp x y \<le> 0 \<longleftrightarrow> key x \<le> key y"
  shows "array_sort cmp xs = sort_key key xs"
  by (induction xs) (simp_all add: array_sort_def sort_insert_insort_key [OF assms])

lemma compare_req_le:
  "compare_req a b \<le> 0 \<longleftrightarrow> GroupedRequirement.req_title_id a \<le> GroupedRequirement.req_title_id b"
  by (auto simp: compare_req_def)

lemma compare_tc_le: "compare_tc a b \<le> 0 \<longleftrightarrow> TestCase.tc_id a \<le> TestCase.tc_id b"
  by (auto simp: compare_tc_def)

lemma array_sort_req: "array_sort compare_req gs = sort_key GroupedRequirement.req_title_id gs"
  by (rule array_sort_sort_key) (rule compare_req_le)

lemma array_sort_tc: "array_sort compare_tc ts = sort_key TestCase.tc_id ts"
  by (rule array_sort_sort_key) (rule compare_tc_le)

text \<open>
  Claim C4. The groups come out in ascending order of \<open>req_title_id\<close> and the test cases
  of every group in ascending order of \<open>tc_id\<close>. Both sorts are stable: the groups that
  share a \<open>req_title_id\<close>, and the test cases that share a \<open>tc_id\<close>, keep their relative
  order, and nothing else about a group changes. Both comparators put \<open>a\<close> before \<open>b\<close>
  exactly when the key of \<open>a\<close> is lexicographically smaller, code unit by code unit.
\<close>

theorem sortedTestCases_stable_lexicographic:
  "sorted (map GroupedRequirement.req_title_id (sortedTestCases gs)) \<and>
   (\<forall>g \<in> set (sortedTestCases gs). sorted (map TestCase.tc_id (GroupedRequirement.test_cases g))) \<and>
   (\<forall>k. filter (\<lambda>g. GroupedRequirement.req_title_id g = k) (sortedTestCases gs) =
        map (\<lambda>g. g\<lparr>GroupedRequirement.test_cases := array_sort compare_tc (GroupedRequirement.test_cases g)\<rparr>)
          (filter (\<lambda>g. GroupedRequirement.req_title_id g = k) gs)) \<and>
   (\<forall>ts. sorted (map TestCase.tc_id (array_sort compare_tc ts))) \<and>
   (\<forall>ts k. filter (\<lambda>t. TestCase.tc_id t = k) (array_sort compare_tc ts) =
        filter (\<lambda>t. TestCase.tc_id t = k) ts) \<and>
   (\<forall>a b. compare_req a b < 0 \<longleftrightarrow>
        (GroupedRequirement.req_title_id a, GroupedRequirement.req_title_id b)
          \<in> lexord {(x, y). x < y}) \<and>
   (\<forall>a b. compare_tc a b < 0 \<longleftrightarrow> (TestCase.tc_id a, TestCase.tc_id b) \<in> lexord {(x, y). x < y})"
proof -
  let ?upd = "\<lambda>g. g\<lparr>GroupedRequirement.test_cases := array_sort compare_tc (GroupedRequirement.test_cases g)\<rparr>"
  have key: "GroupedRequirement.req_title_id \<circ> ?upd = GroupedRequirement.req_title_id"
    by (rule ext) simp
  have out: "sortedTestCases gs = map ?upd (sort_key GroupedRequirement.req_title_id gs)"
    by (simp add: sortedTestCases_def array_sort_req)
  have 1: "sorted (map GroupedRequirement.req_title_id (sortedTestCases gs))"
    unfolding out map_map key by (rule sorted_sort_key)
  have 4: "sorted (map TestCase.tc_id (array_sort compare_tc ts))" for ts
    by (simp add: array_sort_tc)
  have 2: "\<forall>g \<in> set (sortedTestCases gs). sorted (map TestCase.tc_id (GroupedRequirement.test_cases g))"
    unfolding out using 4 by auto
  have 3: "filter (\<lambda>g. GroupedRequirement.req_title_id g = k) (sortedTestCases gs) =
        map ?upd (filter (\<lambda>g. GroupedRequirement.req_title_id g = k) gs)" for k
  proof -
    have "filter (\<lambda>g. GroupedRequirement.req_title_id g = k) (sortedTestCases gs) =
        map ?upd (filter (\<lambda>g. GroupedRequirement.req_title_id g = k) (sort_key GroupedRequirement.req_title_id gs))"
      unfolding out filter_map by (simp add: comp_def)
    then show ?thesis by (simp only: sort_key_stable)
  qed
  have 5: "filter (\<lambda>t. TestCase.tc_id t = k) (array_sort compare_tc ts) = filter (\<lambda>t. TestCase.tc_id t = k) ts" for ts k
    by (simp only: array_sort_tc sort_key_stable)
  have 6: "compare_req a b < 0 \<longleftrightarrow>
        (GroupedRequirement.req_title_id a, GroupedRequirement.req_title_id b)
          \<in> lexord {(x, y). x < y}" for a b
    by (simp add: compare_req_def list_less_def)
  have 7: "compare_tc a b < 0 \<longleftrightarrow> (TestCase.tc_id a, TestCase.tc_id b) \<in> lexord {(x, y). x < y}"
    for a b
    by (simp add: compare_tc_def list_less_def)
  from 1 2 3 4 5 6 7 show ?thesis by blast
qed

text \<open>
  \<open>TC-10\<close> stays in front of \<open>TC-2\<close>, \<open>R1\<close> goes in front of \<open>R2\<close>, and equal
  keys keep their order.
\<close>

theorem sortedTestCases_witness:
  "sortedTestCases
     [group_of (js ''a'') (js ''R2'')
        [test_case_of (js ''TC-10'') [], test_case_of (js ''TC-2'') (js ''x''),
         test_case_of (js ''TC-10'') (js ''y'')],
      group_of (js ''b'') (js ''R1'') [],
      group_of (js ''c'') (js ''R2'') []]
   = [group_of (js ''b'') (js ''R1'') [],
      group_of (js ''a'') (js ''R2'')
        [test_case_of (js ''TC-10'') [], test_case_of (js ''TC-10'') (js ''y''),
         test_case_of (js ''TC-2'') (js ''x'')],
      group_of (js ''c'') (js ''R2'') []]
   \<and> sorted [js ''R1'', js ''R2'', js ''R2'']
   \<and> sorted [js ''TC-10'', js ''TC-10'', js ''TC-2'']"
proof -
  let ?gs = "[group_of (js ''a'') (js ''R2'')
        [test_case_of (js ''TC-10'') [], test_case_of (js ''TC-2'') (js ''x''),
         test_case_of (js ''TC-10'') (js ''y'')],
      group_of (js ''b'') (js ''R1'') [],
      group_of (js ''c'') (js ''R2'') []]"
  let ?g = "group_of (js ''a'') (js ''R2'')
        [test_case_of (js ''TC-10'') [], test_case_of (js ''TC-10'') (js ''y''),
         test_case_of (js ''TC-2'') (js ''x'')]"
  have out: "sortedTestCases ?gs = [group_of (js ''b'') (js ''R1'') [], ?g, group_of (js ''c'') (js ''R2'') []]"
    by (simp add: sortedTestCases_def array_sort_def compare_req_def compare_tc_def group_of_def
        test_case_of_def js_def)
  have mem: "?g \<in> set (sortedTestCases ?gs)"
    unfolding out by simp
  from sortedTestCases_stable_lexicographic [of ?gs]
  have 1: "sorted (map GroupedRequirement.req_title_id (sortedTestCases ?gs))"
    and 2: "\<forall>g \<in> set (sortedTestCases ?gs).
             sorted (map TestCase.tc_id (GroupedRequirement.test_cases g))"
    by blast+
  from 1 have a: "sorted [js ''R1'', js ''R2'', js ''R2'']"
    unfolding out by (simp add: group_of_def)
  from 2 mem have "sorted (map TestCase.tc_id (GroupedRequirement.test_cases ?g))"
    by blast
  then have b: "sorted [js ''TC-10'', js ''TC-10'', js ''TC-2'']"
    by (simp add: group_of_def test_case_of_def)
  from out a b show ?thesis by blast
qed

section \<open>The compliance-tag filter\<close>

text \<open>
  Claim C7. The filter keeps, in order, exactly the test cases that have at least one tag
  among the selected ones, and every test case when nothing is selected.
\<close>

theorem filteredTestCases_or_semantics:
  "filteredTestCases (Some m) selected =
     filter (\<lambda>tc. selected = [] \<or> (\<exists>tag \<in> set (ReportTestCase.compliance_tags tc). tag \<in> set selected))
       (ComplianceMetrics.test_cases m)"
  by (auto simp: filteredTestCases_def array_some_def array_includes_def list_ex_iff intro!: filter_cong)

text \<open>Selecting FDA over cases tagged FDA, ISO and ISO keeps the first one.\<close>

theorem filteredTestCases_witness:
  "filteredTestCases
     (Some (metrics_of [report_case (js ''TC-1'') [js ''FDA'', js ''ISO''], report_case (js ''TC-2'') [js ''ISO'']]))
     [js ''FDA'']
   = [report_case (js ''TC-1'') [js ''FDA'', js ''ISO'']]
   \<and> filteredTestCases
     (Some (metrics_of [report_case (js ''TC-1'') [js ''FDA'', js ''ISO''], report_case (js ''TC-2'') [js ''ISO'']]))
     []
   = [report_case (js ''TC-1'') [js ''FDA'', js ''ISO''], report_case (js ''TC-2'') [js ''ISO'']]"
  using filteredTestCases_or_semantics
      [of "metrics_of [report_case (js ''TC-1'') [js ''FDA'', js ''ISO''], report_case (js ''TC-2'') [js ''ISO'']]" "[js ''FDA'']"]
    filteredTestCases_or_semantics
      [of "metrics_of [report_case (js ''TC-1'') [js ''FDA'', js ''ISO''], report_case (js ''TC-2'') [js ''ISO'']]" "[]"]
  by (simp add: metrics_of_def report_case_def js_def)


section \<open>Generation for the selected requirements: the requests issued\<close>

lemma fst_await_generate:
  "(\<exists>v. fst (await net c generateTestCasesForRequirement s) = Inr v) \<longleftrightarrow>
     generation_succeeds net (length (calls s))"
  by (auto simp: await_def generation_succeeds_def split: sum.splits)

lemma generate_each_all:
  "\<forall>i < length ids. generation_succeeds net (length (calls s) + i) \<Longrightarrow>
   fst (generate_each net ids s) = Inr () \<and>
   calls (snd (generate_each net ids s)) = calls s @ map GenerateTestCasesForRequirement ids"
proof (induction ids arbitrary: s)
  case Nil
  then show ?case by simp
next
  case (Cons reqId rest)
  obtain out s' where a: "await net (GenerateTestCasesForRequirement reqId) generateTestCasesForRequirement s = (out, s')"
    by (cases "await net (GenerateTestCasesForRequirement reqId) generateTestCasesForRequirement s")
  from Cons.prems have "generation_succeeds net (length (calls s))" by force
  with fst_await_generate [of net "GenerateTestCasesForRequirement reqId" s] a
  obtain v where out: "out = Inr v" by auto
  from a have c: "calls s' = calls s @ [GenerateTestCasesForRequirement reqId]"
    by (metis calls_await snd_conv)
  have "\<forall>i < length rest. generation_succeeds net (length (calls s') + i)"
  proof (intro allI impI)
    fix i assume "i < length rest"
    then have "Suc i < length (reqId # rest)" by simp
    with Cons.prems have "generation_succeeds net (length (calls s) + Suc i)" by blast
    then show "generation_succeeds net (length (calls s') + i)" by (simp add: c)
  qed
  from Cons.IH [OF this] show ?case by (simp add: a out c)
qed

lemma generate_each_fails:
  "k < length ids \<Longrightarrow> \<forall>i < k. generation_succeeds net (length (calls s) + i) \<Longrightarrow>
   \<not> generation_succeeds net (length (calls s) + k) \<Longrightarrow>
   (\<exists>e. fst (generate_each net ids s) = Inl e) \<and>
   calls (snd (generate_each net ids s)) =
     calls s @ map GenerateTestCasesForRequirement (take (Suc k) ids)"
proof (induction ids arbitrary: s k)
  case Nil
  then show ?case by simp
next
  case (Cons reqId rest)
  obtain out s' where a: "await net (GenerateTestCasesForRequirement reqId) generateTestCasesForRequirement s = (out, s')"
    by (cases "await net (GenerateTestCasesForRequirement reqId) generateTestCasesForRequirement s")
  from a have c: "calls s' = calls s @ [GenerateTestCasesForRequirement reqId]"
    by (metis calls_await snd_conv)
  show ?case
  proof (cases k)
    case 0
    with Cons.prems have "\<not> generation_succeeds net (length (calls s))" by simp
    with fst_await_generate [of net "GenerateTestCasesForRequirement reqId" s] a
    obtain e where "out = Inl e" by (cases out) auto
    then show ?thesis using a c 0 by simp
  next
    case (Suc j)
    with Cons.prems have "generation_succeeds net (length (calls s))" by force
    with fst_await_generate [of net "GenerateTestCasesForRequirement reqId" s] a
    obtain v where out: "out = Inr v" by auto
    have j: "j < length rest" using Cons.prems Suc by simp
    have all: "\<forall>i < j. generation_succeeds net (length (calls s') + i)"
    proof (intro allI impI)
      fix i assume "i < j"
      then have "Suc i < k" using Suc by simp
      with Cons.prems have "generation_succeeds net (length (calls s) + Suc i)" by blast
      then show "generation_succeeds net (length (calls s') + i)" by (simp add: c)
    qed
    have nj: "\<not> generation_succeeds net (length (calls s') + j)"
      using Cons.prems Suc by (simp add: c)
    from Cons.IH [OF j all nj] show ?thesis by (simp add: a out c Suc)
  qed
qed

lemma selectedFile_generate_each [simp]:
  "selectedFile (snd (generate_each net ids s)) = selectedFile s"
proof (induction ids arbitrary: s)
  case Nil
  then show ?case by simp
next
  case (Cons reqId rest)
  obtain out s' where a: "await net (GenerateTestCasesForRequirement reqId) generateTestCasesForRequirement s = (out, s')"
    by (cases "await net (GenerateTestCasesForRequirement reqId) generateTestCasesForRequirement s")
  then have "selectedFile s' = selectedFile s" by (metis selectedFile_await snd_conv)
  with Cons a show ?case by (cases out) simp_all
qed

text \<open>
  Claim C5, amended. With a selection that is not empty, when every generation call
  returns, the handler issues one generation call per selected requirement, in the order
  of the selection, and then the one refetch of the grouped test cases. When a call
  throws, the calls issued are those up to and including it, and there is no refetch.
\<close>

theorem handleGenerateForRequirements_calls:
  assumes "selectedRequirements s \<noteq> []"
  shows
    "((\<forall>i < length (selectedRequirements s). generation_succeeds net (length (calls s) + i)) \<longrightarrow>
        calls (handleGenerateForRequirements net s) =
          calls s @ map GenerateTestCasesForRequirement (selectedRequirements s)
            @ [GetTestCasesByFile (selectedFile s)]) \<and>
     (\<forall>k < length (selectedRequirements s).
        (\<forall>i < k. generation_succeeds net (length (calls s) + i)) \<and>
        \<not> generation_succeeds net (length (calls s) + k) \<longrightarrow>
        calls (handleGenerateForRequirements net s) =
          calls s @ map GenerateTestCasesForRequirement (take (Suc k) (selectedRequirements s)))"
proof (intro conjI impI allI)
  let ?s1 = "s\<lparr>loadingGenerate := True, error := [], success := JStr []\<rparr>"
  let ?g = "generate_each net (selectedRequirements s) ?s1"
  {
    assume "\<forall>i < length (selectedRequirements s). generation_succeeds net (length (calls s) + i)"
    then have "\<forall>i < length (selectedRequirements s). generation_succeeds net (length (calls ?s1) + i)"
      by simp
    from generate_each_all [OF this]
    have f: "fst ?g = Inr ()" and c: "calls (snd ?g) = calls s @ map GenerateTestCasesForRequirement (selectedRequirements s)"
      by simp_all
    obtain s2 where g: "?g = (Inr (), s2)" using f by (cases ?g) auto
    with c have c2: "calls s2 = calls s @ map GenerateTestCasesForRequirement (selectedRequirements s)" by simp
    let ?s3 = "s2\<lparr>success := JStr (js ''Test cases generated for selected requirements.'')\<rparr>"
    obtain out s4 where r: "refresh net (selectedFile s) ?s3 = (out, s4)"
      by (cases "refresh net (selectedFile s) ?s3")
    then have "calls s4 = calls ?s3 @ [GetTestCasesByFile (selectedFile s)]"
      by (metis calls_refresh snd_conv)
    then show "calls (handleGenerateForRequirements net s) =
          calls s @ map GenerateTestCasesForRequirement (selectedRequirements s)
            @ [GetTestCasesByFile (selectedFile s)]"
      using assms g r c2 by (cases out) (simp_all add: handleGenerateForRequirements_def)
  }
  {
    fix k
    assume k: "k < length (selectedRequirements s)"
      and h: "(\<forall>i < k. generation_succeeds net (length (calls s) + i)) \<and>
        \<not> generation_succeeds net (length (calls s) + k)"
    from h have 1: "\<forall>i < k. generation_succeeds net (length (calls ?s1) + i)"
      and 2: "\<not> generation_succeeds net (length (calls ?s1) + k)" by simp_all
    from generate_each_fails [OF k 1 2]
    obtain e where f: "fst ?g = Inl e"
      and c: "calls (snd ?g) = calls s @ map GenerateTestCasesForRequirement (take (Suc k) (selectedRequirements s))"
      by auto
    obtain s2 where g: "?g = (Inl e, s2)" using f by (cases ?g) auto
    with c have "calls s2 = calls s @ map GenerateTestCasesForRequirement (take (Suc k) (selectedRequirements s))" by simp
    then show "calls (handleGenerateForRequirements net s) =
          calls s @ map GenerateTestCasesForRequirement (take (Suc k) (selectedRequirements s))"
      using assms g by (simp add: handleGenerateForRequirements_def)
  }
qed


text \<open>
  Claim C5 as stated fails: with the selection A, B and a server that answers 500, one
  generation call is issued and nothing else.
\<close>

theorem handleGenerateForRequirements_counterexample:
  "calls (handleGenerateForRequirements (\<lambda>n. Inr (http_failure JNull)) two_selected) =
     [GenerateTestCasesForRequirement (js ''A'')] \<and>
   calls (handleGenerateForRequirements (\<lambda>n. Inr (http_failure JNull)) two_selected) \<noteq>
     [GenerateTestCasesForRequirement (js ''A''), GenerateTestCasesForRequirement (js ''B''),
      GetTestCasesByFile (js ''F1'')]"
  by (simp add: handleGenerateForRequirements_def two_selected_def initial_def await_def
      generateTestCasesForRequirement_def ok_def http_failure_def)

text \<open>Both cases of the amended claim, on the selection A, B.\<close>

theorem handleGenerateForRequirements_calls_witness:
  "selectedRequirements two_selected \<noteq> [] \<and>
   calls (handleGenerateForRequirements (\<lambda>n. Inr (http_ok (JObj []))) two_selected) =
     [GenerateTestCasesForRequirement (js ''A''), GenerateTestCasesForRequirement (js ''B''),
      GetTestCasesByFile (js ''F1'')] \<and>
   calls (handleGenerateForRequirements
            (\<lambda>n. if n = 1 then Inr (http_failure JNull) else Inr (http_ok (JObj []))) two_selected) =
     [GenerateTestCasesForRequirement (js ''A''), GenerateTestCasesForRequirement (js ''B'')]"
proof -
  have sel: "selectedRequirements two_selected \<noteq> []"
    by (simp add: two_selected_def initial_def)
  have ok: "generation_succeeds (\<lambda>n. Inr (http_ok (JObj []))) n" for n
    by (simp add: generation_succeeds_def generateTestCasesForRequirement_def ok_def http_ok_def
        response_json_def)
  have bad: "\<not> generation_succeeds (\<lambda>n. if n = 1 then Inr (http_failure JNull) else Inr (http_ok (JObj []))) 1"
    by (simp add: generation_succeeds_def generateTestCasesForRequirement_def ok_def http_failure_def)
  have good: "generation_succeeds (\<lambda>n. if n = 1 then Inr (http_failure JNull) else Inr (http_ok (JObj []))) 0"
    by (simp add: generation_succeeds_def generateTestCasesForRequirement_def ok_def http_ok_def
        response_json_def)
  have facts: "calls two_selected = []" "selectedFile two_selected = js ''F1''"
    "selectedRequirements two_selected = [js ''A'', js ''B'']"
    by (simp_all add: two_selected_def initial_def)
  from handleGenerateForRequirements_calls [OF sel, of "\<lambda>n. Inr (http_ok (JObj []))"] ok
  have 1: "calls (handleGenerateForRequirements (\<lambda>n. Inr (http_ok (JObj []))) two_selected) =
     [GenerateTestCasesForRequirement (js ''A''), GenerateTestCasesForRequirement (js ''B''),
      GetTestCasesByFile (js ''F1'')]"
    by (simp add: facts)
  let ?net = "\<lambda>n. if n = 1 then Inr (http_failure JNull) else Inr (http_ok (JObj []))"
  have "1 < length (selectedRequirements two_selected)" by (simp add: facts)
  moreover have "\<forall>i<1. generation_succeeds ?net (length (calls two_selected) + i)"
    using good by (simp add: facts)
  moreover have "\<not> generation_succeeds ?net (length (calls two_selected) + 1)"
    using bad by (simp add: facts)
  ultimately have "calls (handleGenerateForRequirements ?net two_selected) =
      calls two_selected @
      map GenerateTestCasesForRequirement (take (Suc 1) (selectedRequirements two_selected))"
    using handleGenerateForRequirements_calls [OF sel, of ?net] by blast
  then have 2: "calls (handleGenerateForRequirements ?net two_selected) =
     [GenerateTestCasesForRequirement (js ''A''), GenerateTestCasesForRequirement (js ''B'')]"
    by (simp add: facts)
  from sel 1 2 show ?thesis by blast
qed


section \<open>The selection of requirements\<close>

lemma selection_step_inv:
  "selection_inv s \<Longrightarrow> fetched_ids_distinct ev \<Longrightarrow> selection_inv (selection_step s ev)"
  by (cases ev)
     (auto simp: selection_inv_def handleRequirementToggle_def array_includes_def Let_def
        handleSelectAllRequirements_def handleFileChange_def)

lemma selection_run_inv:
  "selection_inv s \<Longrightarrow> list_all fetched_ids_distinct evs \<Longrightarrow>
   selection_inv (foldl selection_step s evs)"
  by (induction evs arbitrary: s) (auto simp: selection_step_inv)

lemma selection_inv_initial: "selection_inv initial"
  by (simp add: selection_inv_def initial_def)

text \<open>
  Claim C10, amended. Provided the requirements fetched have pairwise distinct ids, the
  selection never holds an id twice: from the state at mount, through any sequence of
  toggles, select-all actions, file changes and arrivals of fetched requirements.
  Toggling an id removes it when it is selected and appends it once when it is not;
  select-all leaves the selection empty or equal to the ids of the fetched requirements.
\<close>

theorem selectedRequirements_distinct:
  assumes "list_all fetched_ids_distinct evs"
  shows
    "distinct (selectedRequirements (foldl selection_step initial evs)) \<and>
     (\<forall>s i. i \<in> set (selectedRequirements s) \<longrightarrow>
        selectedRequirements (handleRequirementToggle i s) = removeAll i (selectedRequirements s)) \<and>
     (\<forall>s i. i \<notin> set (selectedRequirements s) \<longrightarrow>
        selectedRequirements (handleRequirementToggle i s) = selectedRequirements s @ [i]) \<and>
     (\<forall>s. selectedRequirements (handleSelectAllRequirements s) = [] \<or>
        selectedRequirements (handleSelectAllRequirements s) =
          map Requirement.requirement_id (requirements s))"
proof -
  from selection_run_inv [OF selection_inv_initial assms]
  have "distinct (selectedRequirements (foldl selection_step initial evs))"
    by (simp add: selection_inv_def)
  moreover have "selectedRequirements (handleRequirementToggle i s) = removeAll i (selectedRequirements s)"
    if "i \<in> set (selectedRequirements s)" for s i
    using that by (simp add: handleRequirementToggle_def array_includes_def removeAll_filter_not_eq Let_def) metis
  moreover have "selectedRequirements (handleRequirementToggle i s) = selectedRequirements s @ [i]"
    if "i \<notin> set (selectedRequirements s)" for s i
    using that by (simp add: handleRequirementToggle_def array_includes_def)
  moreover have "selectedRequirements (handleSelectAllRequirements s) = [] \<or>
        selectedRequirements (handleSelectAllRequirements s) =
          map Requirement.requirement_id (requirements s)" for s
    by (simp add: handleSelectAllRequirements_def)
  ultimately show ?thesis by blast
qed

text \<open>Select all of A, B, then toggle A and C: the selection is B, C.\<close>

theorem selectedRequirements_distinct_witness:
  "list_all fetched_ids_distinct
     [RequirementsFetched [requirement_of (js ''A'') [], requirement_of (js ''B'') []],
      SelectAll, Toggle (js ''A''), Toggle (js ''C'')] \<and>
   selectedRequirements
     (foldl selection_step initial
        [RequirementsFetched [requirement_of (js ''A'') [], requirement_of (js ''B'') []],
         SelectAll, Toggle (js ''A''), Toggle (js ''C'')]) = [js ''B'', js ''C''] \<and>
   distinct [js ''B'', js ''C'']"
proof -
  let ?evs = "[RequirementsFetched [requirement_of (js ''A'') [], requirement_of (js ''B'') []],
      SelectAll, Toggle (js ''A''), Toggle (js ''C'')]"
  have h: "list_all fetched_ids_distinct ?evs"
    by (simp add: requirement_of_def js_def)
  have v: "selectedRequirements (foldl selection_step initial ?evs) = [js ''B'', js ''C'']"
    by (simp add: initial_def handleSelectAllRequirements_def handleRequirementToggle_def
        array_includes_def requirement_of_def js_def)
  from selectedRequirements_distinct [OF h]
  have "distinct (selectedRequirements (foldl selection_step initial ?evs))" by blast
  then have "distinct [js ''B'', js ''C'']" unfolding v .
  with h v show ?thesis by blast
qed

text \<open>
  Claim C10 as stated fails: when two fetched requirements share the id A, select-all
  selects A twice.
\<close>

theorem selectedRequirements_duplicates_counterexample:
  "selectedRequirements
     (foldl selection_step initial
        [RequirementsFetched [requirement_of (js ''A'') (js ''first''), requirement_of (js ''A'') (js ''second'')],
         SelectAll]) = [js ''A'', js ''A''] \<and>
   \<not> distinct (selectedRequirements
     (foldl selection_step initial
        [RequirementsFetched [requirement_of (js ''A'') (js ''first''), requirement_of (js ''A'') (js ''second'')],
         SelectAll]))"
  by (simp add: initial_def handleSelectAllRequirements_def requirement_of_def)


section \<open>The improve modal: when closing refetches\<close>

text \<open>
  Closing the modal issues the refetch, for the selected file, exactly when the improved
  description held at that moment is truthy.
\<close>

lemma calls_handleCloseImproveModal:
  "calls (handleCloseImproveModal net s) =
     calls s @ (if truthy (improvedDescription s) then [GetTestCasesByFile (selectedFile s)] else [])"
proof (cases "truthy (improvedDescription s)")
  case False
  then show ?thesis by (simp add: handleCloseImproveModal_def)
next
  case True
  let ?s2 = "s\<lparr>showImproveModal := False, loadingTestCases := True\<rparr>"
  obtain out s3 where r: "refresh net (selectedFile s) ?s2 = (out, s3)"
    by (cases "refresh net (selectedFile s) ?s2")
  have "calls (snd (refresh net (selectedFile s) ?s2)) = calls ?s2 @ [GetTestCasesByFile (selectedFile s)]"
    by (simp add: refresh_def await_def split: sum.splits)
  with r have "calls s3 = calls s @ [GetTestCasesByFile (selectedFile s)]" by simp
  with True r show ?thesis by (cases out) (simp_all add: handleCloseImproveModal_def)
qed

text \<open>
  An improve call that returns an improved description, then Cancel: the improve call
  and the refetch.
\<close>

lemma improve_modal_refetch_after_result:
  "calls (foldl (modal_step (\<lambda>n. Inr (http_ok improved_body))) opened
            [EditInput (js ''more''), Submit, Cancel]) =
     [improve_request, GetTestCasesByFile (js ''F1'')]"
  by (simp add: opened_def improve_request_def handleOpenImproveModal_def file_selected_def
      initial_def modal_shown_def handleImproveSubmit_def handleCloseImproveModal_def await_def
      refresh_def improveTestCase_def getTestCasesByFile_def ok_def http_ok_def response_json_def
      improved_body_def or_else_def Let_def js_def)

text \<open>
  Claim C6. The modal is opened, a suggestion is typed and submitted twice. The first
  improve call returns an improved description, so that an improvement was made in this
  session; the second returns an empty one, which takes its place. Cancel then closes
  the modal and no refetch is issued: the requests of the session are the two improve
  calls.
\<close>

theorem improve_modal_no_refetch_after_empty_result:
  "improvedDescription
     (foldl (modal_step better_then_empty) opened [EditInput (js ''more''), Submit]) =
     JStr (js ''better'') \<and>
   calls (foldl (modal_step better_then_empty) opened [EditInput (js ''more''), Submit]) =
     [improve_request] \<and>
   improvedDescription
     (foldl (modal_step better_then_empty) opened [EditInput (js ''more''), Submit, Submit]) =
     JStr [] \<and>
   calls (foldl (modal_step better_then_empty) opened
            [EditInput (js ''more''), Submit, Submit, Cancel]) =
     [improve_request, improve_request] \<and>
   showImproveModal (foldl (modal_step better_then_empty) opened
            [EditInput (js ''more''), Submit, Submit, Cancel]) = False"
  by (simp add: opened_def improve_request_def handleOpenImproveModal_def file_selected_def
      initial_def modal_shown_def handleImproveSubmit_def handleCloseImproveModal_def await_def
      better_then_empty_def improveTestCase_def ok_def http_ok_def response_json_def
      improved_body_def empty_body_def or_else_def Let_def js_def)


section \<open>The API client: what is thrown and what is returned\<close>















section \<open>Integration screen: the states of a push\<close>








section \<open>Formatting a description\<close>

text \<open>
  Claim C1. The description \<open>1. Enter 5 items 2. Click\<close> has two numbered segments. The
  content of the first one holds a digit, which the capture group \<^verbatim>\<open>[^\d]+\<close> cannot cross
  and the lookahead does not accept: no match starts at the first segment, and the list
  that is rendered has the second step alone.
\<close>

theorem formatDescriptionSmart_drops_step_with_digit:
  "formatDescriptionSmart (js ''1. Enter 5 items 2. Click'') = OrderedList [js ''Click'']"
  by (simp add: formatDescriptionSmart_def matches_from.simps js_def match_here_def
      plus_lengths_def isDigit_def isSpace_def lookahead_def trim_def)

text \<open>
  Where no content holds a digit, the list is the one of the (trimmed) contents, in the
  order of the text, whatever the numbers are.
\<close>

lemma takeWhile_run:
  "list_all P xs \<Longrightarrow> ys = [] \<or> \<not> P (hd ys) \<Longrightarrow> takeWhile P (xs @ ys) = xs"
  by (induction xs) (auto simp: takeWhile_eq_Nil_iff)

lemma first_match_longest:
  assumes "0 < m" and "f m = Some y"
  shows "first_match f (rev [1 ..< Suc m]) = Some y"
proof -
  from assms(1) have "[1 ..< Suc m] = [1 ..< m] @ [m]" by simp
  then show ?thesis using assms(2) by simp
qed

lemma numbered_Cons: "numbered ((n, c) # segs) = n @ 46 # 32 # c @ numbered segs"
  by (simp add: numbered_def)

lemma numbered_starts_with_digit:
  "list_all well_segment segs \<Longrightarrow> segs \<noteq> [] \<Longrightarrow>
   numbered segs \<noteq> [] \<and> isDigit (hd (numbered segs))"
  by (cases segs) (auto simp: numbered_def well_segment_def neq_Nil_conv)

lemma not_digit_46: "\<not> isDigit 46"
  by (simp add: isDigit_def)

lemma isSpace_32: "isSpace 32"
  by (simp add: isSpace_def)

lemma lookahead_numbered:
  assumes "list_all well_segment segs"
  shows "lookahead (numbered segs)"
proof (cases segs)
  case Nil
  then show ?thesis by (simp add: lookahead_def numbered_def)
next
  case (Cons seg rest)
  obtain n c where seg: "seg = (n, c)" by (cases seg)
  from assms Cons seg have n: "n \<noteq> []" "list_all isDigit n"
    by (simp_all add: well_segment_def)
  let ?s = "numbered segs"
  have s: "?s = n @ (46 # 32 # c @ numbered rest)"
    by (simp add: Cons seg numbered_Cons)
  have "takeWhile isDigit ?s = n"
    unfolding s by (rule takeWhile_run [OF n(2)]) (simp add: not_digit_46)
  then have pl: "plus_lengths isDigit ?s = rev [1 ..< Suc (length n)]"
    by (simp add: plus_lengths_def)
  have "(case drop (length n) ?s of [] \<Rightarrow> None | c # cs \<Rightarrow> if c = 46 then Some () else None) = Some ()"
    unfolding s by simp
  with n(1) have "first_match
        (\<lambda>k. case drop k ?s of [] \<Rightarrow> None | c # cs \<Rightarrow> if c = 46 then Some () else None)
        (rev [1 ..< Suc (length n)]) = Some ()"
    by (intro first_match_longest) simp_all
  then show ?thesis by (simp add: lookahead_def pl)
qed

lemma match_here_numbered:
  assumes "well_segment (n, c)" and "list_all well_segment rest"
  shows "match_here (numbered ((n, c) # rest)) = Some (c, numbered rest)"
proof -
  from assms(1) have n: "n \<noteq> []" "list_all isDigit n"
    and c: "c \<noteq> []" "list_all (\<lambda>x. \<not> isDigit x) c"
    by (simp_all add: well_segment_def)
  let ?s = "numbered ((n, c) # rest)"
  have s: "?s = n @ (46 # 32 # c @ numbered rest)" by (simp add: numbered_Cons)
  have "takeWhile isDigit ?s = n"
    unfolding s by (rule takeWhile_run [OF n(2)]) (simp add: not_digit_46)
  then have pl: "plus_lengths isDigit ?s = rev [1 ..< Suc (length n)]"
    by (simp add: plus_lengths_def)
  have r: "numbered rest = [] \<or> \<not> (\<lambda>x. \<not> isDigit x) (hd (numbered rest))"
    using numbered_starts_with_digit [OF assms(2)] by (cases rest) (auto simp: numbered_def)
  have "takeWhile (\<lambda>x. \<not> isDigit x) (c @ numbered rest) = c"
    by (rule takeWhile_run [OF c(2) r])
  then have plc: "plus_lengths (\<lambda>x. \<not> isDigit x) (c @ numbered rest) = rev [1 ..< Suc (length c)]"
    by (simp add: plus_lengths_def)
  have inner: "first_match
       (\<lambda>k. if lookahead (drop k (c @ numbered rest))
            then Some (take k (c @ numbered rest), drop k (c @ numbered rest)) else None)
       (plus_lengths (\<lambda>x. \<not> isDigit x) (c @ numbered rest)) = Some (c, numbered rest)"
    unfolding plc using c(1) lookahead_numbered [OF assms(2)]
    by (intro first_match_longest) simp_all
  have "(case drop (length n) ?s of
              dot # sp # r \<Rightarrow>
                if dot = 46 \<and> isSpace sp then
                  first_match
                    (\<lambda>k. if lookahead (drop k r) then Some (take k r, drop k r) else None)
                    (plus_lengths (\<lambda>c. \<not> isDigit c) r)
                else None
            | _ \<Rightarrow> None) = Some (c, numbered rest)"
    unfolding s using inner by (simp add: isSpace_32)
  with n(1) show ?thesis
    unfolding match_here_def pl by (intro first_match_longest) simp_all
qed

lemma exec_numbered:
  assumes "well_segment (n, c)" and "list_all well_segment rest"
  shows "exec (numbered ((n, c) # rest)) = Some (c, numbered rest)"
proof -
  from assms(1) have "n \<noteq> []" by (simp add: well_segment_def)
  then obtain d ds where "numbered ((n, c) # rest) = d # ds"
    by (cases n) (auto simp: numbered_Cons)
  with match_here_numbered [OF assms] show ?thesis by simp
qed

lemma matches_from_numbered:
  "list_all well_segment segs \<Longrightarrow> matches_from (numbered segs) = map (\<lambda>seg. trim (snd seg)) segs"
proof (induction segs)
  case Nil
  have "numbered [] = []" by (simp add: numbered_def)
  moreover have "match_here [] = None" by (simp add: match_here_def plus_lengths_def)
  ultimately show ?case by (subst matches_from.simps) simp
next
  case (Cons seg rest)
  obtain n c where seg: "seg = (n, c)" by (cases seg)
  from Cons.prems seg have w: "well_segment (n, c)" "list_all well_segment rest" by simp_all
  from exec_numbered [OF w] Cons.IH [OF w(2)] show ?case
    by (subst matches_from.simps) (simp add: seg)
qed

lemma formatDescriptionSmart_numbered:
  assumes "segs \<noteq> []" and "list_all well_segment segs"
  shows "formatDescriptionSmart (numbered segs) = OrderedList (map (\<lambda>seg. trim (snd seg)) segs)"
  using assms by (simp add: formatDescriptionSmart_def matches_from_numbered)


lemma formatDescriptionSmart_examples:
  "formatDescriptionSmart (js ''1. a 2. b 3. c'') = OrderedList [js ''a'', js ''b'', js ''c'']"
  "formatDescriptionSmart (js ''3. foo 1. bar'') = OrderedList [js ''foo'', js ''bar'']"
  by (simp_all add: formatDescriptionSmart_def matches_from.simps js_def match_here_def
      plus_lengths_def isDigit_def isSpace_def lookahead_def trim_def)

section \<open>The fallback of the formatting\<close>

lemma trim_empty_iff: "trim s = [] \<longleftrightarrow> (\<forall>c \<in> set s. isSpace c)"
proof -
  have "trim s = [] \<longleftrightarrow> (\<forall>c \<in> set (dropWhile isSpace s). isSpace c)"
    by (simp add: trim_def dropWhile_eq_Nil_conv)
  also have "\<dots> \<longleftrightarrow> dropWhile isSpace s = []"
  proof
    assume a: "\<forall>c \<in> set (dropWhile isSpace s). isSpace c"
    show "dropWhile isSpace s = []"
    proof (cases "dropWhile isSpace s")
      case Nil
      then show ?thesis .
    next
      case (Cons c cs)
      then have "\<not> isSpace c" by (metis hd_dropWhile list.sel(1) list.distinct(1))
      with a Cons show ?thesis by simp
    qed
  next
    assume "dropWhile isSpace s = []"
    then show "\<forall>c \<in> set (dropWhile isSpace s). isSpace c" by (simp only: set_simps ball_empty)
  qed
  also have "\<dots> \<longleftrightarrow> (\<forall>c \<in> set s. isSpace c)"
    by (simp add: dropWhile_eq_Nil_conv)
  finally show ?thesis .
qed

lemma split_not_empty: "split sep s \<noteq> []"
  by (induction s) (auto split: list.splits)

lemma join_split: "join [sep] (split sep s) = s"
proof (induction s)
  case Nil
  then show ?case by simp
next
  case (Cons c cs)
  obtain line lines where l: "split sep cs = line # lines"
    using split_not_empty [of sep cs] by (cases "split sep cs") auto
  with Cons show ?case by (cases lines) auto
qed

lemma split_no_separator: "line \<in> set (split sep s) \<Longrightarrow> sep \<notin> set line"
proof (induction s arbitrary: line)
  case Nil
  then show ?case by simp
next
  case (Cons c cs)
  obtain l ls where l: "split sep cs = l # ls"
    using split_not_empty [of sep cs] by (cases "split sep cs") auto
  with Cons show ?case by (cases "c = sep") auto
qed

text \<open>
  Claim C2. When the regular expression finds no match, the description is split at its
  newlines (the lines, joined by newlines, are the description, and no line holds a
  newline) and the lines that are not all white space are kept: when more than one is
  kept, the result is the list of the kept lines, and a single paragraph otherwise.
\<close>

theorem formatDescriptionSmart_fallback:
  assumes "matches_from desc = []"
  shows
    "formatDescriptionSmart desc =
       (let kept = filter (\<lambda>line. \<exists>c \<in> set line. \<not> isSpace c) (split 10 desc)
        in if 1 < length kept then OrderedList kept else Paragraph desc) \<and>
     join [10] (split 10 desc) = desc \<and>
     (\<forall>line \<in> set (split 10 desc). 10 \<notin> set line)"
proof -
  have "(\<lambda>line. trim line \<noteq> []) = (\<lambda>line. \<exists>c \<in> set line. \<not> isSpace c)"
    by (rule ext) (simp add: trim_empty_iff)
  then have "formatDescriptionSmart desc =
       (let kept = filter (\<lambda>line. \<exists>c \<in> set line. \<not> isSpace c) (split 10 desc)
        in if 1 < length kept then OrderedList kept else Paragraph desc)"
    using assms by (simp add: formatDescriptionSmart_def formatDescription_def)
  then show ?thesis using join_split [of 10 desc] split_no_separator [of _ 10 desc] by blast
qed

text \<open>Two lines around a blank one; one line with a newline after it.\<close>

theorem formatDescriptionSmart_fallback_witness:
  "matches_from (js ''first line'' @ [10] @ js ''  '' @ [10] @ js ''second line'') = [] \<and>
   formatDescriptionSmart (js ''first line'' @ [10] @ js ''  '' @ [10] @ js ''second line'') =
     OrderedList [js ''first line'', js ''second line''] \<and>
   matches_from (js ''only line'' @ [10]) = [] \<and>
   formatDescriptionSmart (js ''only line'' @ [10]) = Paragraph (js ''only line'' @ [10])"
proof -
  let ?two = "js ''first line'' @ [10] @ js ''  '' @ [10] @ js ''second line''"
  let ?one = "js ''only line'' @ [10]"
  have m2: "matches_from ?two = []"
    by (simp add: matches_from.simps js_def match_here_def plus_lengths_def isDigit_def)
  have m1: "matches_from ?one = []"
    by (simp add: matches_from.simps js_def match_here_def plus_lengths_def isDigit_def)
  from formatDescriptionSmart_fallback [OF m2]
  have "formatDescriptionSmart ?two =
       (let kept = filter (\<lambda>line. \<exists>c \<in> set line. \<not> isSpace c) (split 10 ?two)
        in if 1 < length kept then OrderedList kept else Paragraph ?two)"
    by blast
  then have 2: "formatDescriptionSmart ?two = OrderedList [js ''first line'', js ''second line'']"
    by (simp add: js_def isSpace_def)
  from formatDescriptionSmart_fallback [OF m1]
  have "formatDescriptionSmart ?one =
       (let kept = filter (\<lambda>line. \<exists>c \<in> set line. \<not> isSpace c) (split 10 ?one)
        in if 1 < length kept then OrderedList kept else Paragraph ?one)"
    by blast
  then have 1: "formatDescriptionSmart ?one = Paragraph ?one"
    by (simp add: js_def isSpace_def)
  from m2 2 m1 1 show ?thesis by blast
qed


section \<open>Formatting the input data\<close>

text \<open>
  Claim C3. When the input parses as JSON, the result is the parsed value serialized
  with an indentation of 2; when the parse throws, the result is the input.
\<close>

theorem formatInputData_roundtrip_or_identity:
  "(\<forall>obj. parse input = Inr obj \<longrightarrow> formatInputData parse stringify input = stringify obj 2) \<and>
   (\<forall>e. parse input = Inl e \<longrightarrow> formatInputData parse stringify input = input)"
  by (simp add: formatInputData_def)

text \<open>The input \<open>[]\<close>, and an input that is not JSON.\<close>

theorem formatInputData_witness:
  "parse_brackets (js ''[]'') = Inr (JArr []) \<and>
   formatInputData parse_brackets stringify_brackets (js ''[]'') = js ''[]'' \<and>
   parse_brackets (js ''not json'') = Inl SyntaxError \<and>
   formatInputData parse_brackets stringify_brackets (js ''not json'') = js ''not json''"
proof -
  have p1: "parse_brackets (js ''[]'') = Inr (JArr [])" by (simp add: parse_brackets_def)
  have p2: "parse_brackets (js ''not json'') = Inl SyntaxError"
    by (simp add: parse_brackets_def js_def)
  from formatInputData_roundtrip_or_identity [of parse_brackets "js ''[]''" stringify_brackets] p1
  have "formatInputData parse_brackets stringify_brackets (js ''[]'') = stringify_brackets (JArr []) 2"
    by blast
  then have 1: "formatInputData parse_brackets stringify_brackets (js ''[]'') = js ''[]''"
    by (simp add: stringify_brackets_def)
  from formatInputData_roundtrip_or_identity [of parse_brackets "js ''not json''" stringify_brackets] p2
  have 2: "formatInputData parse_brackets stringify_brackets (js ''not json'') = js ''not json''"
    by blast
  from p1 1 p2 2 show ?thesis by blast
qed


end
